theory Spec2Isabelle
  imports Main
begin

section \<open>Parsed pages\<close>

text \<open>
  A page is the tree that \<^verbatim>\<open>BeautifulSoup(response.text, "html.parser")\<close> builds.
  A tag has a name, an attribute dictionary (kept as the list of its items, keys distinct,
  values as written in the markup) and its ordered contents. The other nodes are strings:
  \<open>Text\<close> for character data, \<open>Comment\<close> for the string kinds that the \<^verbatim>\<open>.text\<close>
  property leaves out (comments and their relatives, and the strings of a script, style or
  template as a tag around it reads them) but that are \<^verbatim>\<open>str\<close> instances all the
  same. The root of a page is the document object, itself a tag.
  A \<open>char\<close> stands for a code point below 256.
\<close>

datatype node =
    Element string "(string \<times> string) list" "node list"
  | Text string
  | Comment string

text \<open>\<^verbatim>\<open>getattr(x, "name", None)\<close>: only tags carry a name.\<close>

fun tag_name :: "node \<Rightarrow> string option" where
  "tag_name (Element t a cs) = Some t"
| "tag_name (Text s) = None"
| "tag_name (Comment s) = None"

fun contents :: "node \<Rightarrow> node list" where
  "contents (Element t a cs) = cs"
| "contents (Text s) = []"
| "contents (Comment s) = []"

text \<open>\<^verbatim>\<open>elem.get(key, default)\<close> on a tag.\<close>

fun get_attr :: "node \<Rightarrow> string \<Rightarrow> string \<Rightarrow> string" where
  "get_attr (Element t a cs) key dflt = (case map_of a key of Some v \<Rightarrow> v | None \<Rightarrow> dflt)"
| "get_attr (Text s) key dflt = dflt"
| "get_attr (Comment s) key dflt = dflt"

text \<open>\<^verbatim>\<open>isinstance(elem, str)\<close>: every string node, comments included.\<close>

fun is_str :: "node \<Rightarrow> bool" where
  "is_str (Element t a cs) = False"
| "is_str (Text s) = True"
| "is_str (Comment s) = True"

fun str_of :: "node \<Rightarrow> string" where
  "str_of (Element t a cs) = []"
| "str_of (Text s) = s"
| "str_of (Comment s) = s"

text \<open>
  Truth value of a node, as \<^verbatim>\<open>while sibling:\<close> tests it: a tag is always true, a string
  node is true unless it is the empty string.
\<close>

fun truthy :: "node \<Rightarrow> bool" where
  "truthy (Element t a cs) = True"
| "truthy (Text s) = (s \<noteq> [])"
| "truthy (Comment s) = (s \<noteq> [])"

subsection \<open>Python string operations\<close>

text \<open>The characters that \<^verbatim>\<open>str.strip()\<close> and the pattern \<^verbatim>\<open>\S+\<close> treat as whitespace.\<close>

definition isspace :: "char \<Rightarrow> bool" where
  "isspace c =
     (let n = (of_char c :: nat)
      in (9 \<le> n \<and> n \<le> 13) \<or> (28 \<le> n \<and> n \<le> 32) \<or> n = 133 \<or> n = 160)"

text \<open>\<^verbatim>\<open>s.strip()\<close>\<close>

definition strip :: "string \<Rightarrow> string" where
  "strip s = rev (dropWhile isspace (rev (dropWhile isspace s)))"

text \<open>\<^verbatim>\<open>s.strip(chars)\<close>: removes the characters of \<open>chars\<close> from both ends.\<close>

definition strip_chars :: "string \<Rightarrow> string \<Rightarrow> string" where
  "strip_chars chars s =
     rev (dropWhile (\<lambda>c. c \<in> set chars) (rev (dropWhile (\<lambda>c. c \<in> set chars) s)))"

text \<open>The line feed, Python's \<^verbatim>\<open>"\n"\<close>.\<close>

abbreviation newline :: string where
  "newline \<equiv> [CHR 0x0A]"

text \<open>The tokens of a \<^verbatim>\<open>class\<close> attribute: its maximal runs of non-whitespace.\<close>

fun tokens :: "string \<Rightarrow> string \<Rightarrow> string list" where
  "tokens cur [] = (if cur = [] then [] else [cur])"
| "tokens cur (c # cs) =
     (if isspace c then (if cur = [] then [] else [cur]) @ tokens [] cs
      else tokens (cur @ [c]) cs)"

definition has_class :: "string \<Rightarrow> node \<Rightarrow> bool" where
  "has_class c n = (tag_name n \<noteq> None \<and> c \<in> set (tokens [] (get_attr n ''class'' [])))"

subsection \<open>Tree navigation\<close>

text \<open>\<^verbatim>\<open>tag.descendants\<close>: every node below the tag, in document order.\<close>

fun descendants :: "node \<Rightarrow> node list" where
  "descendants (Element t a cs) = concat (map (\<lambda>c. c # descendants c) cs)"
| "descendants (Text s) = []"
| "descendants (Comment s) = []"

text \<open>\<^verbatim>\<open>tag.text\<close>: the character data below the tag, joined; comments are left out.\<close>

fun get_text :: "node \<Rightarrow> string" where
  "get_text (Element t a cs) = concat (map get_text cs)"
| "get_text (Text s) = s"
| "get_text (Comment s) = []"

text \<open>\<^verbatim>\<open>soup.find_all(class_=c)\<close> and \<^verbatim>\<open>tag.find(class_=c)\<close>.\<close>

definition find_all_class :: "string \<Rightarrow> node \<Rightarrow> node list" where
  "find_all_class c soup = filter (has_class c) (descendants soup)"

definition find_class :: "string \<Rightarrow> node \<Rightarrow> node option" where
  "find_class c tag = List.find (has_class c) (descendants tag)"

text \<open>A \<^verbatim>\<open>div\<close> of class \<^verbatim>\<open>mw-parser-output\<close>: the main content container.\<close>

definition is_container :: "node \<Rightarrow> bool" where
  "is_container n = (tag_name n = Some ''div'' \<and> has_class ''mw-parser-output'' n)"

text \<open>\<^verbatim>\<open>soup.find("div", class_="mw-parser-output")\<close>\<close>

definition find_container :: "node \<Rightarrow> node option" where
  "find_container soup = List.find is_container (descendants soup)"

text \<open>
  \<^verbatim>\<open>tag.find_all("h2")\<close>, run on the contents of the tag. A found heading is kept with the
  nodes that follow it under the same parent: what \<^verbatim>\<open>next_sibling\<close> walks through.
\<close>

fun find_all_h2 :: "node list \<Rightarrow> (node \<times> node list) list" where
  "find_all_h2 [] = []"
| "find_all_h2 (Element t a cs # rest) =
     (if t = ''h2'' then [(Element t a cs, rest)] else []) @ find_all_h2 cs @ find_all_h2 rest"
| "find_all_h2 (Text s # rest) = find_all_h2 rest"
| "find_all_h2 (Comment s # rest) = find_all_h2 rest"

text \<open>
  \<^verbatim>\<open>soup.select("div.mw-parser-output > ol > li")\<close>: the walk carries whether the parent
  is the container (\<open>pc\<close>) and whether the parent is an \<^verbatim>\<open>ol\<close> whose own
  parent is the container (\<open>po\<close>); matches come out in document order.
\<close>

fun select_walk :: "bool \<Rightarrow> bool \<Rightarrow> node \<Rightarrow> node list" where
  "select_walk pc po (Element t a cs) =
     (if po \<and> t = ''li'' then [Element t a cs] else []) @
     concat (map (select_walk (is_container (Element t a cs)) (pc \<and> t = ''ol'')) cs)"
| "select_walk pc po (Text s) = []"
| "select_walk pc po (Comment s) = []"

definition select_answer_items :: "node \<Rightarrow> node list" where
  "select_answer_items soup = select_walk False False soup"

section \<open>The extractors\<close>

subsection \<open>Answer list\<close>

text \<open>
  \<^verbatim>\<open>scrape_answers(url)\<close>. The request is the caller's world: \<open>fetch\<close> is what
  \<^verbatim>\<open>requests.get\<close> followed by \<^verbatim>\<open>raise_for_status\<close> and the parse came to, either the
  \<^verbatim>\<open>RequestException\<close> raised (with its text) or the parsed page. The function returns
  what it printed together with its value, \<open>None\<close> being Python's \<^verbatim>\<open>None\<close>.
\<close>

datatype fetch = RequestException string | Response node

datatype message = Info string | Success string | Error string

definition scrape_answers :: "string \<Rightarrow> fetch \<Rightarrow> message list \<times> string list option" where
  "scrape_answers url r =
     (case r of
        RequestException e \<Rightarrow>
          ([Info (''Fetching data from: '' @ url),
            Error (''Error fetching the webpage: '' @ e)], None)
      | Response soup \<Rightarrow>
          (let elements = select_answer_items soup
           in if elements \<noteq> []
              then ([Info (''Fetching data from: '' @ url),
                     Success ''Successfully fetched webpage!'',
                     Success ''Found answer elements on the page.''],
                    Some (map (\<lambda>li. strip (get_text li))
                            (filter (\<lambda>li. strip (get_text li) \<noteq> []) elements)))
              else ([Info (''Fetching data from: '' @ url),
                     Success ''Successfully fetched webpage!'',
                     Error ''No answers found with the expected format. The page structure might have changed.''],
                    None)))"

subsection \<open>Section titles\<close>

text \<open>\<^verbatim>\<open>fetch_solution_sections(soup)\<close>: the loop over the entries, \<open>result\<close> threaded through.\<close>

fun toc_loop :: "node list \<Rightarrow> string list \<Rightarrow> string list" where
  "toc_loop [] result = result"
| "toc_loop (content # toc_sections) result =
     toc_loop toc_sections
       (case find_class ''toctext'' content of
          Some text_el \<Rightarrow> result @ [strip (get_text text_el)]
        | None \<Rightarrow> result)"

definition fetch_solution_sections :: "node \<Rightarrow> string list" where
  "fetch_solution_sections soup = toc_loop (find_all_class ''toclevel-1'' soup) []"

subsection \<open>Section content\<close>

datatype error = IndexError

text \<open>
  The inner loop of \<^verbatim>\<open>extract_solution_content\<close>, over the descendants of one sibling.
  \<open>conv\<close> is \<^verbatim>\<open>converter.latex_to_text\<close>, a function of the markup.
\<close>

definition visit :: "(string \<Rightarrow> string) \<Rightarrow> node \<Rightarrow> string list \<Rightarrow> string list" where
  "visit conv elem solution_content =
     (if tag_name elem = Some ''img''
      then (let latex = get_attr elem ''alt'' []
            in solution_content @ [strip_chars newline (conv latex)])
      else if is_str elem
      then (let text = strip (str_of elem)
            in if text \<noteq> [] then solution_content @ [strip text] else solution_content)
      else solution_content)"

fun descendants_loop :: "(string \<Rightarrow> string) \<Rightarrow> node list \<Rightarrow> string list \<Rightarrow> string list" where
  "descendants_loop conv [] solution_content = solution_content"
| "descendants_loop conv (elem # elems) solution_content =
     descendants_loop conv elems (visit conv elem solution_content)"

text \<open>
  The outer loop, over the nodes that follow the chosen heading. It ends when there is no
  next sibling, when the sibling is false (an empty string node) or when it is an
  \<^verbatim>\<open>h2\<close>.
\<close>

fun sibling_loop :: "(string \<Rightarrow> string) \<Rightarrow> node list \<Rightarrow> string list \<Rightarrow> string list" where
  "sibling_loop conv [] solution_content = solution_content"
| "sibling_loop conv (sibling # rest) solution_content =
     (if \<not> truthy sibling then solution_content
      else if tag_name sibling = Some ''h2'' then solution_content
      else sibling_loop conv rest
             ((if tag_name sibling \<in> {Some ''p'', Some ''ul'', Some ''ol'', Some ''div''}
               then descendants_loop conv (descendants sibling) solution_content
               else solution_content) @ [newline]))"

text \<open>
  \<^verbatim>\<open>extract_solution_content(soup, section_index)\<close>. \<^verbatim>\<open>h2_tags.pop(0)\<close> raises
  \<^verbatim>\<open>IndexError\<close> on an empty list; the index is a Python integer.
\<close>

definition extract_solution_content ::
  "(string \<Rightarrow> string) \<Rightarrow> node \<Rightarrow> int \<Rightarrow> error + string list" where
  "extract_solution_content conv soup section_index =
     (case find_container soup of
        None \<Rightarrow> Inr []
      | Some mw_content \<Rightarrow>
          (case find_all_h2 (contents mw_content) of
             [] \<Rightarrow> Inl IndexError
           | contents_heading # h2_tags \<Rightarrow>
               if \<not> (0 \<le> section_index \<and> section_index < int (length h2_tags))
               then Inr []
               else Inr (sibling_loop conv (snd (h2_tags ! nat section_index)) [])))"

section \<open>The extractors over a store\<close>

text \<open>
  The same three functions with the objects of the Python run made explicit. A store holds
  the page and the list objects that calls have made, each at its address. Reading the
  page (\<^verbatim>\<open>select\<close>, \<^verbatim>\<open>find\<close>, \<^verbatim>\<open>find_all\<close>, \<^verbatim>\<open>descendants\<close>, \<^verbatim>\<open>next_sibling\<close>,
  \<^verbatim>\<open>get\<close>, \<^verbatim>\<open>text\<close>) leaves the store as it is; \<^verbatim>\<open>find_all\<close>, a list display and a
  list comprehension make a new list object when the code goes on to change or return it;
  \<^verbatim>\<open>pop\<close> and \<^verbatim>\<open>append\<close> change the list object they are called on. A call returns
  the contents of the list it hands back, together with the store it leaves.
\<close>

datatype pylist = Tags "(node \<times> node list) list" | Strs "string list"

record store =
  page :: node
  objects :: "pylist list"

text \<open>A new list object, at the next free address.\<close>

definition new_object :: "pylist \<Rightarrow> store \<Rightarrow> nat \<times> store" where
  "new_object v s = (length (objects s), s\<lparr>objects := objects s @ [v]\<rparr>)"

definition tags_at :: "store \<Rightarrow> nat \<Rightarrow> (node \<times> node list) list" where
  "tags_at s r = (case objects s ! r of Tags ts \<Rightarrow> ts | Strs xs \<Rightarrow> [])"

definition strs_at :: "store \<Rightarrow> nat \<Rightarrow> string list" where
  "strs_at s r = (case objects s ! r of Strs xs \<Rightarrow> xs | Tags ts \<Rightarrow> [])"

text \<open>\<^verbatim>\<open>h2_tags.pop(0)\<close>\<close>

definition pop_first :: "nat \<Rightarrow> store \<Rightarrow> error + store" where
  "pop_first r s =
     (case tags_at s r of
        [] \<Rightarrow> Inl IndexError
      | t # ts \<Rightarrow> Inr (s\<lparr>objects := (objects s)[r := Tags ts]\<rparr>))"

text \<open>\<^verbatim>\<open>result.append(x)\<close>, \<^verbatim>\<open>solution_content.append(x)\<close>\<close>

definition append_str :: "nat \<Rightarrow> string \<Rightarrow> store \<Rightarrow> store" where
  "append_str r x s = s\<lparr>objects := (objects s)[r := Strs (strs_at s r @ [x])]\<rparr>"

text \<open>\<^verbatim>\<open>scrape_answers\<close> from the parsed page on.\<close>

definition scrape_answers_st ::
  "string \<Rightarrow> store \<Rightarrow> (message list \<times> string list option) \<times> store" where
  "scrape_answers_st url s =
     (let elements = select_answer_items (page s)
      in if elements \<noteq> []
         then (let (answers, s1) =
                     new_object (Strs (map (\<lambda>li. strip (get_text li))
                        (filter (\<lambda>li. strip (get_text li) \<noteq> []) elements))) s
               in (([Info (''Fetching data from: '' @ url),
                     Success ''Successfully fetched webpage!'',
                     Success ''Found answer elements on the page.''],
                    Some (strs_at s1 answers)), s1))
         else (([Info (''Fetching data from: '' @ url),
                 Success ''Successfully fetched webpage!'',
                 Error ''No answers found with the expected format. The page structure might have changed.''],
                None), s))"

fun toc_loop_st :: "node list \<Rightarrow> nat \<Rightarrow> store \<Rightarrow> store" where
  "toc_loop_st [] result s = s"
| "toc_loop_st (content # toc_sections) result s =
     toc_loop_st toc_sections result
       (case find_class ''toctext'' content of
          Some text_el \<Rightarrow> append_str result (strip (get_text text_el)) s
        | None \<Rightarrow> s)"

definition fetch_solution_sections_st :: "store \<Rightarrow> string list \<times> store" where
  "fetch_solution_sections_st s =
     (let toc_sections = find_all_class ''toclevel-1'' (page s);
          (result, s1) = new_object (Strs []) s;
          s2 = toc_loop_st toc_sections result s1
      in (strs_at s2 result, s2))"

definition visit_st :: "(string \<Rightarrow> string) \<Rightarrow> node \<Rightarrow> nat \<Rightarrow> store \<Rightarrow> store" where
  "visit_st conv elem solution_content s =
     (if tag_name elem = Some ''img''
      then (let latex = get_attr elem ''alt'' []
            in append_str solution_content (strip_chars newline (conv latex)) s)
      else if is_str elem
      then (let text = strip (str_of elem)
            in if text \<noteq> [] then append_str solution_content (strip text) s else s)
      else s)"

fun descendants_loop_st :: "(string \<Rightarrow> string) \<Rightarrow> node list \<Rightarrow> nat \<Rightarrow> store \<Rightarrow> store" where
  "descendants_loop_st conv [] solution_content s = s"
| "descendants_loop_st conv (elem # elems) solution_content s =
     descendants_loop_st conv elems solution_content (visit_st conv elem solution_content s)"

fun sibling_loop_st :: "(string \<Rightarrow> string) \<Rightarrow> node list \<Rightarrow> nat \<Rightarrow> store \<Rightarrow> store" where
  "sibling_loop_st conv [] solution_content s = s"
| "sibling_loop_st conv (sibling # rest) solution_content s =
     (if \<not> truthy sibling then s
      else if tag_name sibling = Some ''h2'' then s
      else sibling_loop_st conv rest solution_content
             (append_str solution_content newline
                (if tag_name sibling \<in> {Some ''p'', Some ''ul'', Some ''ol'', Some ''div''}
                 then descendants_loop_st conv (descendants sibling) solution_content s
                 else s)))"

definition extract_solution_content_st ::
  "(string \<Rightarrow> string) \<Rightarrow> int \<Rightarrow> store \<Rightarrow> (error + string list) \<times> store" where
  "extract_solution_content_st conv section_index s =
     (case find_container (page s) of
        None \<Rightarrow> (let (empty, s1) = new_object (Strs []) s in (Inr (strs_at s1 empty), s1))
      | Some mw_content \<Rightarrow>
          (let (h2_tags, s1) = new_object (Tags (find_all_h2 (contents mw_content))) s
           in case pop_first h2_tags s1 of
                Inl e \<Rightarrow> (Inl e, s1)
              | Inr s2 \<Rightarrow>
                  if \<not> (0 \<le> section_index \<and> section_index < int (length (tags_at s2 h2_tags)))
                  then (let (empty, s3) = new_object (Strs []) s2 in (Inr (strs_at s3 empty), s3))
                  else (let selected_h2 = tags_at s2 h2_tags ! nat section_index;
                            (solution_content, s3) = new_object (Strs []) s2;
                            s4 = sibling_loop_st conv (snd selected_h2) solution_content s3
                        in (Inr (strs_at s4 solution_content), s4))))"

text \<open>What a call may do to a store: leave the page and every object that was there alone.\<close>

definition preserves :: "store \<Rightarrow> store \<Rightarrow> bool" where
  "preserves s s' = (page s' = page s \<and> take (length (objects s)) (objects s') = objects s)"

section \<open>Notions the properties are stated with\<close>

text \<open>What one processed sibling adds to the fragments before its separator.\<close>

definition block_fragments :: "(string \<Rightarrow> string) \<Rightarrow> node \<Rightarrow> string list" where
  "block_fragments conv sibling =
     (if tag_name sibling \<in> {Some ''p'', Some ''ul'', Some ''ol'', Some ''div''}
      then descendants_loop conv (descendants sibling) [] else [])"

text \<open>
  Every node at or below a node, in document order, each with its parent and its
  grandparent where it has them.
\<close>

fun with_ancestors ::
  "node option \<Rightarrow> node option \<Rightarrow> node \<Rightarrow> (node option \<times> node option \<times> node) list" where
  "with_ancestors gp p (Element t a cs) =
     (gp, p, Element t a cs) # concat (map (with_ancestors p (Some (Element t a cs))) cs)"
| "with_ancestors gp p (Text s) = [(gp, p, Text s)]"
| "with_ancestors gp p (Comment s) = [(gp, p, Comment s)]"

text \<open>
  The answer items in the words of the specification: the list items that are direct
  children of an ordered list that is itself a direct child of the main content container.
\<close>

fun is_answer_item :: "node option \<times> node option \<times> node \<Rightarrow> bool" where
  "is_answer_item (Some gp, Some p, n) =
     (is_container gp \<and> tag_name p = Some ''ol'' \<and> tag_name n = Some ''li'')"
| "is_answer_item (gp, p, n) = False"

definition answer_items_spec :: "node \<Rightarrow> node list" where
  "answer_items_spec soup =
     map (\<lambda>(gp, p, n). n) (filter is_answer_item (with_ancestors None None soup))"

text \<open>
  The specification's reading of the clean-up of a converted image text: trailing line
  feeds go, nothing else does.
\<close>

definition spec_strip_trailing_newlines :: "string \<Rightarrow> string" where
  "spec_strip_trailing_newlines s = rev (dropWhile (\<lambda>c. c = CHR 0x0A) (rev s))"

text \<open>The raw number of \<^verbatim>\<open>h2\<close> headings on a page.\<close>

definition count_h2 :: "node \<Rightarrow> nat" where
  "count_h2 soup = length (filter (\<lambda>n. tag_name n = Some ''h2'') (descendants soup))"

subsection \<open>Sample pages\<close>

definition container_attrs :: "(string \<times> string) list" where
  "container_attrs = [(''class'', ''mw-parser-output'')]"

text \<open>An answer key with three answers.\<close>

definition answer_key_page :: node where
  "answer_key_page =
     Element ''[document]'' []
       [Element ''div'' container_attrs
          [Element ''ol'' []
             [Element ''li'' [] [Text ''A''],
              Text newline,
              Element ''li'' [] [Text '' B ''],
              Element ''li'' [] [Element ''b'' [] [Text ''C''], Text newline]]]]"

text \<open>An answer key whose only list item is blank.\<close>

definition blank_items_page :: node where
  "blank_items_page =
     Element ''[document]'' []
       [Element ''div'' container_attrs [Element ''ol'' [] [Element ''li'' [] [Text ''  '']]]]"

text \<open>A page without the container.\<close>

definition bare_page :: node where
  "bare_page = Element ''[document]'' [] [Element ''p'' [] [Text ''Nothing here.'']]"

text \<open>A page whose container holds no heading.\<close>

definition no_heading_page :: node where
  "no_heading_page =
     Element ''[document]'' []
       [Element ''div'' container_attrs [Element ''p'' [] [Text ''No headings here.'']]]"

text \<open>
  A problem page as the wiki lays it out: the table of contents with its own heading, then
  the sections.
\<close>

definition toc_entry :: "string \<Rightarrow> string \<Rightarrow> node" where
  "toc_entry number title =
     Element ''li'' [(''class'', ''toclevel-1 tocsection-'' @ number)]
       [Element ''a'' [(''href'', ''#'' @ title)]
          [Element ''span'' [(''class'', ''tocnumber'')] [Text number],
           Text '' '',
           Element ''span'' [(''class'', ''toctext'')] [Text title]]]"

definition problem_page :: node where
  "problem_page =
     Element ''[document]'' []
       [Element ''div'' container_attrs
          [Element ''div'' [(''class'', ''toc'')]
             [Element ''div'' [(''class'', ''toctitle'')] [Element ''h2'' [] [Text ''Contents'']],
              Element ''ul'' [] [toc_entry ''1'' ''Solution 1'', toc_entry ''2'' ''Solution 2'']],
           Element ''h2'' [] [Text ''Solution 1''],
           Element ''p'' [] [Text ''The answer is 5.''],
           Element ''h2'' [] [Text ''Solution 2''],
           Text newline,
           Element ''p'' []
             [Text ''So '', Element ''img'' [(''alt'', ''x'')] [], Text '' wins.'',
              Text ''  '', Element ''img'' [] []],
           Element ''table'' [] [Text ''skipped'']]]"

text \<open>A page with three headings and no table of contents.\<close>

definition headings_only_page :: node where
  "headings_only_page =
     Element ''[document]'' []
       [Element ''div'' container_attrs
          [Element ''h2'' [] [Text ''Contents''],
           Element ''h2'' [] [Text ''Solution 1''],
           Element ''p'' [] [Text ''The answer is 5.''],
           Element ''h2'' [] [Text ''Solution 2'']]]"

text \<open>
  A page with an empty comment among the siblings of a section, all inside a \<^verbatim>\<open>pre\<close>,
  where the parser keeps an empty string as it is.
\<close>

definition empty_string_page :: node where
  "empty_string_page =
     Element ''[document]'' []
       [Element ''div'' container_attrs
          [Element ''pre'' []
             [Element ''h2'' [] [Text ''Contents''],
              Element ''h2'' [] [Text ''Solution''],
              Element ''p'' [] [Text ''one''],
              Comment [],
              Element ''p'' [] [Text ''two''],
              Element ''h2'' [] [Text ''Next'']]]]"

text \<open>
  A table of contents whose titles come with whitespace around them; its second entry has
  no \<^verbatim>\<open>toctext\<close> node.
\<close>

definition padded_toc_page :: node where
  "padded_toc_page =
     Element ''[document]'' []
       [Element ''ul'' []
          [Element ''li'' [(''class'', ''toclevel-1 tocsection-1'')]
             [Element ''a'' [(''href'', ''#Solution_1'')]
                [Element ''span'' [(''class'', ''tocnumber'')] [Text ''1''],
                 Text '' '',
                 Element ''span'' [(''class'', ''toctext'')]
                   [Text (newline @ ''  Solution 1 (fast)  '')]]],
           Element ''li'' [(''class'', ''toclevel-1'')]
             [Element ''a'' [(''href'', ''#x'')] [Text ''no title'']],
           Element ''li'' [(''class'', ''toclevel-1 tocsection-2'')]
             [Element ''span'' [(''class'', ''toctext'')]
                [Text '' Solution '', Element ''i'' [] [Text ''2''], Comment ''x'',
                 Text newline]]]]"

text \<open>A converter that sets its result on a line of its own, as display math is.\<close>

definition display_conv :: "string \<Rightarrow> string" where
  "display_conv latex = newline @ latex @ newline"

section \<open>Auxiliary facts\<close>

subsection \<open>The loops as list functions\<close>

lemma visit_append: "visit conv elem sc = sc @ visit conv elem []"
  by (simp add: visit_def Let_def)

lemma descendants_loop_eq:
  "descendants_loop conv elems sc = sc @ concat (map (\<lambda>e. visit conv e []) elems)"
proof (induction elems arbitrary: sc)
  case Nil
  show ?case by simp
next
  case (Cons e es)
  have "descendants_loop conv (e # es) sc = descendants_loop conv es (visit conv e sc)"
    by simp
  also have "\<dots> = visit conv e sc @ concat (map (\<lambda>e. visit conv e []) es)"
    by (rule Cons.IH)
  also have "\<dots> = sc @ visit conv e [] @ concat (map (\<lambda>e. visit conv e []) es)"
    using visit_append [of conv e sc] by simp
  finally show ?case by simp
qed

lemma sibling_loop_eq:
  "sibling_loop conv sibs sc =
     sc @ concat (map (\<lambda>s. block_fragments conv s @ [newline])
                    (takeWhile (\<lambda>s. truthy s \<and> tag_name s \<noteq> Some ''h2'') sibs))"
proof (induction sibs arbitrary: sc)
  case Nil
  show ?case by simp
next
  case (Cons s ss)
  show ?case
  proof (cases "truthy s \<and> tag_name s \<noteq> Some ''h2''")
    case False
    then show ?thesis by auto
  next
    case True
    have step:
      "(if tag_name s \<in> {Some ''p'', Some ''ul'', Some ''ol'', Some ''div''}
        then descendants_loop conv (descendants s) sc else sc) = sc @ block_fragments conv s"
      using descendants_loop_eq [of conv "descendants s" sc]
        descendants_loop_eq [of conv "descendants s" "[]"]
      by (simp add: block_fragments_def)
    from True have "sibling_loop conv (s # ss) sc =
        sibling_loop conv ss ((sc @ block_fragments conv s) @ [newline])"
      using step by simp
    also have "\<dots> = ((sc @ block_fragments conv s) @ [newline]) @
        concat (map (\<lambda>s. block_fragments conv s @ [newline])
                  (takeWhile (\<lambda>s. truthy s \<and> tag_name s \<noteq> Some ''h2'') ss))"
      by (rule Cons.IH)
    finally show ?thesis using True by simp
  qed
qed

lemma toc_loop_eq:
  "toc_loop toc_sections result =
     result @ map (\<lambda>t. strip (get_text t))
                (List.map_filter (find_class ''toctext'') toc_sections)"
  by (induction toc_sections arbitrary: result)
     (auto simp: List.map_filter_simps split: option.splits)

subsection \<open>The headings found are the headings below the container\<close>

lemma find_all_h2_descendants:
  "map fst (find_all_h2 cs)
     = filter (\<lambda>n. tag_name n = Some ''h2'') (concat (map (\<lambda>c. c # descendants c) cs))"
  by (induction cs rule: find_all_h2.induct) simp_all

lemma find_all_h2_container:
  "map fst (find_all_h2 (contents mw_content))
     = filter (\<lambda>n. tag_name n = Some ''h2'') (descendants mw_content)"
  by (cases mw_content) (simp_all add: find_all_h2_descendants)

subsection \<open>The selector against the specification's words\<close>

lemma select_walk_spec:
  "select_walk (case p of Some q \<Rightarrow> is_container q | None \<Rightarrow> False)
               (case (gp, p) of
                  (Some g, Some q) \<Rightarrow> is_container g \<and> tag_name q = Some ''ol''
                | _ \<Rightarrow> False) n
   = map (\<lambda>(gp, p, n). n) (filter is_answer_item (with_ancestors gp p n))"
proof (induction n arbitrary: gp p)
  case (Element t a cs)
  have kids:
    "concat (map (select_walk (is_container (Element t a cs))
                    ((case p of Some q \<Rightarrow> is_container q | None \<Rightarrow> False) \<and> t = ''ol'')) cs)
     = concat (map (\<lambda>c. map (\<lambda>(gp, p, n). n)
                 (filter is_answer_item (with_ancestors p (Some (Element t a cs)) c))) cs)"
  proof (rule arg_cong [where f = concat], rule map_cong [OF refl])
    fix c assume c: "c \<in> set cs"
    show "select_walk (is_container (Element t a cs))
            ((case p of Some q \<Rightarrow> is_container q | None \<Rightarrow> False) \<and> t = ''ol'') c
        = map (\<lambda>(gp, p, n). n)
            (filter is_answer_item (with_ancestors p (Some (Element t a cs)) c))"
      using Element.IH [OF c, of "Some (Element t a cs)" p]
      by (cases p) simp_all
  qed
  have first:
    "(if (case (gp, p) of
            (Some g, Some q) \<Rightarrow> is_container g \<and> tag_name q = Some ''ol''
          | _ \<Rightarrow> False) \<and> t = ''li''
      then [Element t a cs] else [])
     = map (\<lambda>(gp, p, n). n) (filter is_answer_item [(gp, p, Element t a cs)])"
    by (cases gp; cases p) simp_all
  show ?case
    unfolding select_walk.simps with_ancestors.simps kids first
    by (simp add: map_concat filter_concat comp_def)
next
  case (Text s)
  show ?case by (cases gp; cases p) simp_all
next
  case (Comment s)
  show ?case by (cases gp; cases p) simp_all
qed

lemma select_answer_items_spec: "select_answer_items soup = answer_items_spec soup"
  using select_walk_spec [of None None soup]
  by (simp add: select_answer_items_def answer_items_spec_def)

subsection \<open>Stripping\<close>

lemma rev_split_trailing:
  "xs = rev (dropWhile P (rev xs)) @ rev (takeWhile P (rev xs))"
proof -
  have "rev (dropWhile P (rev xs)) @ rev (takeWhile P (rev xs))
          = rev (takeWhile P (rev xs) @ dropWhile P (rev xs))"
    by (simp only: rev_append)
  also have "\<dots> = rev (rev xs)" by (simp only: takeWhile_dropWhile_id)
  finally show ?thesis by simp
qed

lemma trim_parts:
  "\<exists>pre post. s = pre @ rev (dropWhile P (rev (dropWhile P s))) @ post
     \<and> (\<forall>c \<in> set pre. P c) \<and> (\<forall>c \<in> set post. P c)"
proof -
  let ?d = "dropWhile P s"
  have a: "s = takeWhile P s @ ?d" by simp
  have b: "?d = rev (dropWhile P (rev ?d)) @ rev (takeWhile P (rev ?d))"
    by (rule rev_split_trailing)
  have c: "\<forall>c \<in> set (takeWhile P s). P c" by (auto dest: set_takeWhileD)
  have d: "\<forall>c \<in> set (rev (takeWhile P (rev ?d))). P c" by (auto dest: set_takeWhileD)
  from a b have "s = takeWhile P s @ rev (dropWhile P (rev ?d)) @ rev (takeWhile P (rev ?d))"
    by metis
  with c d show ?thesis by blast
qed

lemma trim_ends:
  assumes "rev (dropWhile P (rev (dropWhile P s))) \<noteq> []"
  shows "\<not> P (hd (rev (dropWhile P (rev (dropWhile P s)))))"
    and "\<not> P (last (rev (dropWhile P (rev (dropWhile P s)))))"
proof -
  let ?d = "dropWhile P s"
  let ?t = "rev (dropWhile P (rev ?d))"
  from assms have ne: "dropWhile P (rev ?d) \<noteq> []" by simp
  have "last ?t = hd (dropWhile P (rev ?d))" using ne by (simp add: last_rev)
  then show "\<not> P (last ?t)" using ne hd_dropWhile [of P "rev ?d"] by simp
  have split: "?d = ?t @ rev (takeWhile P (rev ?d))"
    by (rule rev_split_trailing)
  have dne: "?d \<noteq> []"
  proof
    assume e: "?d = []"
    have "?t = []" by (simp only: e rev.simps dropWhile.simps)
    with assms show False by (rule notE)
  qed
  have "hd (?t @ rev (takeWhile P (rev ?d))) = hd ?t" using assms by (rule hd_append2)
  with split have "hd ?d = hd ?t" by metis
  then show "\<not> P (hd ?t)" using dne hd_dropWhile [of P s] by simp
qed

lemma dropWhile_hd_id: "xs \<noteq> [] \<Longrightarrow> \<not> P (hd xs) \<Longrightarrow> dropWhile P xs = xs"
  by (cases xs) simp_all

lemma trim_idem:
  "rev (dropWhile P (rev (dropWhile P (rev (dropWhile P (rev (dropWhile P s)))))))
   = rev (dropWhile P (rev (dropWhile P s)))"
proof -
  define t where "t = rev (dropWhile P (rev (dropWhile P s)))"
  have "rev (dropWhile P (rev (dropWhile P t))) = t"
  proof (cases "t = []")
    case True
    then show ?thesis by simp
  next
    case False
    then have "rev (dropWhile P (rev (dropWhile P s))) \<noteq> []" unfolding t_def .
    from trim_ends [OF this] have h: "\<not> P (hd t)" and l: "\<not> P (last t)"
      unfolding t_def .
    from False h have 1: "dropWhile P t = t" by (rule dropWhile_hd_id)
    from False l have "\<not> P (hd (rev t))" by (simp add: hd_rev)
    with False have 2: "dropWhile P (rev t) = rev t" by (simp add: dropWhile_hd_id)
    show ?thesis by (simp only: 1 2 rev_rev_ident)
  qed
  then show ?thesis by (simp only: t_def)
qed

lemma strip_idem: "strip (strip s) = strip s"
  unfolding strip_def by (rule trim_idem)

lemma strip_ends:
  "strip s \<noteq> [] \<Longrightarrow> \<not> isspace (hd (strip s)) \<and> \<not> isspace (last (strip s))"
  unfolding strip_def using trim_ends [of isspace s] by blast

lemma strip_parts:
  "\<exists>pre post. s = pre @ strip s @ post
     \<and> (\<forall>c \<in> set pre. isspace c) \<and> (\<forall>c \<in> set post. isspace c)"
  unfolding strip_def by (rule trim_parts)

lemma strip_chars_ends:
  "strip_chars chars s \<noteq> [] \<Longrightarrow>
     hd (strip_chars chars s) \<notin> set chars \<and> last (strip_chars chars s) \<notin> set chars"
  unfolding strip_chars_def using trim_ends [of "\<lambda>c. c \<in> set chars" s] by blast

lemma strip_chars_parts:
  "\<exists>pre post. s = pre @ strip_chars chars s @ post
     \<and> set pre \<subseteq> set chars \<and> set post \<subseteq> set chars"
  unfolding strip_chars_def using trim_parts [of s "\<lambda>c. c \<in> set chars"] by blast

lemma visit_str:
  "is_str elem \<Longrightarrow>
     visit conv elem sc = (if strip (str_of elem) = [] then sc else sc @ [strip (str_of elem)])"
  by (cases elem) (simp_all add: visit_def strip_idem)

subsection \<open>Where the walk over the siblings ends\<close>

lemma takeWhile_no_h2:
  "\<forall>s \<in> set pre. tag_name s \<noteq> Some ''h2'' \<Longrightarrow> tag_name h = Some ''h2'' \<Longrightarrow>
     takeWhile (\<lambda>s. truthy s \<and> tag_name s \<noteq> Some ''h2'') (pre @ h # post) = takeWhile truthy pre"
  by (induction pre) auto

subsection \<open>The section extractor inside and outside its index range\<close>

lemma extract_solution_content_no_container:
  "find_container soup = None \<Longrightarrow> extract_solution_content conv soup i = Inr []"
  by (simp add: extract_solution_content_def)

lemma extract_solution_content_no_heading:
  assumes "find_container soup = Some mw_content"
    and "find_all_h2 (contents mw_content) = []"
  shows "extract_solution_content conv soup i = Inl IndexError"
  using assms by (simp add: extract_solution_content_def)

lemma extract_solution_content_out_of_range:
  assumes "find_container soup = Some mw_content"
    and "find_all_h2 (contents mw_content) = contents_heading # h2_tags"
    and "i < 0 \<or> int (length h2_tags) \<le> i"
  shows "extract_solution_content conv soup i = Inr []"
  using assms by (auto simp: extract_solution_content_def)

lemma extract_solution_content_in_range:
  assumes "find_container soup = Some mw_content"
    and "find_all_h2 (contents mw_content) = contents_heading # h2_tags"
    and "0 \<le> i" and "i < int (length h2_tags)"
  shows "extract_solution_content conv soup i =
           Inr (sibling_loop conv (snd (h2_tags ! nat i)) [])"
  using assms by (simp add: extract_solution_content_def)

subsection \<open>The walk up to the next heading\<close>

text \<open>
  A heading followed by the paragraph "The answer is 5." and then by an \<^verbatim>\<open>h2\<close> gives that
  text and one line feed. With no \<^verbatim>\<open>h2\<close> among the siblings \<open>pre\<close>, the heading \<open>h\<close> and
  what follows it add nothing, and every sibling of \<open>pre\<close> before its first empty string
  node adds its fragments and one line feed.
\<close>

lemma sibling_loop_until_heading:
  "(find_container soup = Some mw_content \<longrightarrow>
      find_all_h2 (contents mw_content) = contents_heading # h2_tags \<longrightarrow>
      0 \<le> i \<longrightarrow> i < int (length h2_tags) \<longrightarrow>
      snd (h2_tags ! nat i) = Element ''p'' a [Text ''The answer is 5.''] # Element ''h2'' a' cs # rest \<longrightarrow>
      extract_solution_content conv soup i = Inr [''The answer is 5.'', newline])
   \<and> (tag_name h = Some ''h2'' \<longrightarrow> (\<forall>s \<in> set pre. tag_name s \<noteq> Some ''h2'') \<longrightarrow>
        sibling_loop conv (pre @ h # post) acc
          = acc @ concat (map (\<lambda>s. block_fragments conv s @ [newline]) (takeWhile truthy pre)))"
proof -
  have frag: "block_fragments conv (Element ''p'' a [Text ''The answer is 5.'']) = [''The answer is 5.'']"
    by (simp add: block_fragments_def visit_def strip_def isspace_def)
  have scenario: "sibling_loop conv (Element ''p'' a [Text ''The answer is 5.''] # Element ''h2'' a' cs # rest) []
      = [''The answer is 5.'', newline]"
    unfolding sibling_loop_eq using frag by simp
  have general: "sibling_loop conv (pre @ h # post) acc
          = acc @ concat (map (\<lambda>s. block_fragments conv s @ [newline]) (takeWhile truthy pre))"
    if "tag_name h = Some ''h2''" "\<forall>s \<in> set pre. tag_name s \<noteq> Some ''h2''"
    unfolding sibling_loop_eq using takeWhile_no_h2 [OF that(2) that(1)] by simp
  show ?thesis
    using scenario general by (auto simp: extract_solution_content_in_range)
qed

text \<open>The scenarios of the specification on the sample problem page.\<close>

lemma problem_page_scenarios:
  "fetch_solution_sections problem_page = [''Solution 1'', ''Solution 2'']
   \<and> extract_solution_content display_conv problem_page 0 = Inr [''The answer is 5.'', newline]
   \<and> extract_solution_content display_conv problem_page 1
       = Inr [newline, ''So'', ''x'', ''wins.'', [], newline, newline]
   \<and> extract_solution_content display_conv problem_page 2 = Inr []"
  by code_simp

subsection \<open>The store after a call\<close>

lemma preserves_refl: "preserves s s"
  by (simp add: preserves_def)

lemma preserves_trans: "preserves s s' \<Longrightarrow> preserves s' s'' \<Longrightarrow> preserves s s''"
  unfolding preserves_def
  by (metis append_take_drop_id length_take min.cobounded2 min_def take_all_iff take_take nat_le_linear)

lemma store_same:
  "objects s ! r = v \<Longrightarrow> s\<lparr>objects := (objects s)[r := v]\<rparr> = s"
proof -
  assume "objects s ! r = v"
  then have "(objects s)[r := v] = objects s" by (metis list_update_id)
  then show ?thesis by simp
qed

lemma visit_st_eq:
  assumes "r < length (objects s)" "objects s ! r = Strs acc"
  shows "visit_st conv elem r s = s\<lparr>objects := (objects s)[r := Strs (visit conv elem acc)]\<rparr>"
  using assms by (simp add: visit_st_def visit_def append_str_def strs_at_def Let_def store_same)

lemma descendants_loop_st_eq:
  assumes "r < length (objects s)" "objects s ! r = Strs acc"
  shows "descendants_loop_st conv elems r s
           = s\<lparr>objects := (objects s)[r := Strs (descendants_loop conv elems acc)]\<rparr>"
  using assms
proof (induction elems arbitrary: s acc)
  case Nil
  then show ?case by (simp add: store_same)
next
  case (Cons e es)
  let ?s1 = "s\<lparr>objects := (objects s)[r := Strs (visit conv e acc)]\<rparr>"
  have v: "visit_st conv e r s = ?s1" using Cons.prems by (rule visit_st_eq)
  have "descendants_loop_st conv es r ?s1
          = ?s1\<lparr>objects := (objects ?s1)[r := Strs (descendants_loop conv es (visit conv e acc))]\<rparr>"
    using Cons.prems by (intro Cons.IH) simp_all
  then show ?case using v by simp
qed

lemma sibling_loop_st_eq:
  assumes "r < length (objects s)" "objects s ! r = Strs acc"
  shows "sibling_loop_st conv sibs r s
           = s\<lparr>objects := (objects s)[r := Strs (sibling_loop conv sibs acc)]\<rparr>"
  using assms
proof (induction sibs arbitrary: s acc)
  case Nil
  then show ?case by (simp add: store_same)
next
  case (Cons b bs)
  show ?case
  proof (cases "truthy b \<and> tag_name b \<noteq> Some ''h2''")
    case False
    then show ?thesis using Cons.prems by (auto simp: store_same)
  next
    case True
    let ?acc1 = "if tag_name b \<in> {Some ''p'', Some ''ul'', Some ''ol'', Some ''div''}
                 then descendants_loop conv (descendants b) acc else acc"
    let ?s1 = "s\<lparr>objects := (objects s)[r := Strs (?acc1 @ [newline])]\<rparr>"
    have inner: "append_str r newline
                (if tag_name b \<in> {Some ''p'', Some ''ul'', Some ''ol'', Some ''div''}
                 then descendants_loop_st conv (descendants b) r s else s) = ?s1"
      using Cons.prems descendants_loop_st_eq [OF Cons.prems, of conv "descendants b"]
      by (simp add: append_str_def strs_at_def)
    have "sibling_loop_st conv bs r ?s1
            = ?s1\<lparr>objects := (objects ?s1)[r := Strs (sibling_loop conv bs (?acc1 @ [newline]))]\<rparr>"
      using Cons.prems by (intro Cons.IH) simp_all
    then show ?thesis using True inner by simp
  qed
qed

lemma toc_loop_st_eq:
  assumes "r < length (objects s)" "objects s ! r = Strs acc"
  shows "toc_loop_st cs r s = s\<lparr>objects := (objects s)[r := Strs (toc_loop cs acc)]\<rparr>"
  using assms
proof (induction cs arbitrary: s acc)
  case Nil
  then show ?case by (simp add: store_same)
next
  case (Cons c cs)
  show ?case
  proof (cases "find_class ''toctext'' c")
    case None
    then show ?thesis using Cons by simp
  next
    case (Some t)
    let ?s1 = "s\<lparr>objects := (objects s)[r := Strs (acc @ [strip (get_text t)])]\<rparr>"
    have "toc_loop_st cs r ?s1
            = ?s1\<lparr>objects := (objects ?s1)[r := Strs (toc_loop cs (acc @ [strip (get_text t)]))]\<rparr>"
      using Cons.prems by (intro Cons.IH) simp_all
    then show ?thesis using Some Cons.prems by (simp add: append_str_def strs_at_def)
  qed
qed

lemma scrape_answers_st_pure:
  "fst (scrape_answers_st url s) = scrape_answers url (Response (page s))"
  by (simp add: scrape_answers_st_def scrape_answers_def new_object_def strs_at_def Let_def)

lemma scrape_answers_st_preserves: "preserves s (snd (scrape_answers_st url s))"
  by (simp add: scrape_answers_st_def new_object_def preserves_def Let_def)

lemma fetch_solution_sections_st_pure:
  "fst (fetch_solution_sections_st s) = fetch_solution_sections (page s)"
  by (simp add: fetch_solution_sections_st_def fetch_solution_sections_def new_object_def
      toc_loop_st_eq [where acc = "[]"] strs_at_def Let_def)

lemma fetch_solution_sections_st_preserves: "preserves s (snd (fetch_solution_sections_st s))"
  by (simp add: fetch_solution_sections_st_def new_object_def
      toc_loop_st_eq [where acc = "[]"] preserves_def Let_def)

lemma extract_solution_content_st_pure:
  "fst (extract_solution_content_st conv i s) = extract_solution_content conv (page s) i"
  by (auto simp: extract_solution_content_st_def extract_solution_content_def new_object_def
      pop_first_def tags_at_def strs_at_def sibling_loop_st_eq [where acc = "[]"] Let_def nth_append
      split: option.splits list.splits)

lemma extract_solution_content_st_preserves:
  "preserves s (snd (extract_solution_content_st conv i s))"
  by (auto simp: extract_solution_content_st_def new_object_def
      pop_first_def tags_at_def strs_at_def sibling_loop_st_eq [where acc = "[]"] Let_def nth_append
      preserves_def split: option.splits list.splits)

section \<open>Properties of the extractors\<close>

text \<open>
  Claim C1, on a page whose container holds no \<^verbatim>\<open>h2\<close> heading: whatever the converter and
  whatever the index, \<^verbatim>\<open>extract_solution_content\<close> does not return the empty sequence
  there, it raises \<^verbatim>\<open>IndexError\<close> from \<^verbatim>\<open>h2_tags.pop(0)\<close>.
\<close>

theorem extract_solution_content_no_heading_raises:
  "extract_solution_content conv no_heading_page i = Inl IndexError"
proof -
  have c: "find_container no_heading_page
             = Some (Element ''div'' container_attrs [Element ''p'' [] [Text ''No headings here.'']])"
    by code_simp
  show ?thesis
    by (simp add: extract_solution_content_def c)
qed

text \<open>
  Claim C2 fails as stated: a request that failed and a page without any answer item come
  back as the same value, \<^verbatim>\<open>None\<close>.
\<close>

theorem scrape_answers_failures_same_value:
  "snd (scrape_answers ''https://artofproblemsolving.com/wiki/index.php/2020_AMC_8_Answer_Key''
          (RequestException ''timed out''))
   = snd (scrape_answers ''https://artofproblemsolving.com/wiki/index.php/2020_AMC_8_Answer_Key''
          (Response bare_page))"
  by code_simp

text \<open>
  Claim C2, amended: when no answer item is selected on the fetched page, and when the
  request fails, \<^verbatim>\<open>scrape_answers\<close> returns \<^verbatim>\<open>None\<close> alike; the two cases differ in
  what is printed only. After a fetched page the success message of the fetch and then the
  "no answers found" error are printed, after a failed request the "error fetching" error
  with the text of the exception, and no success message.
\<close>

theorem scrape_answers_failures_told_by_message:
  assumes "select_answer_items soup = []"
  shows "snd (scrape_answers url (Response soup)) = None
     \<and> snd (scrape_answers url (RequestException e)) = None
     \<and> Success ''Successfully fetched webpage!'' \<in> set (fst (scrape_answers url (Response soup)))
     \<and> Success ''Successfully fetched webpage!'' \<notin> set (fst (scrape_answers url (RequestException e)))
     \<and> last (fst (scrape_answers url (Response soup)))
         = Error ''No answers found with the expected format. The page structure might have changed.''
     \<and> last (fst (scrape_answers url (RequestException e)))
         = Error (''Error fetching the webpage: '' @ e)"
  using assms by (simp add: scrape_answers_def)

theorem scrape_answers_failures_told_by_message_witness:
  "select_answer_items bare_page = []
     \<and> snd (scrape_answers ''u'' (Response bare_page)) = None
     \<and> snd (scrape_answers ''u'' (RequestException ''timed out'')) = None
     \<and> fst (scrape_answers ''u'' (Response bare_page))
         \<noteq> fst (scrape_answers ''u'' (RequestException ''timed out''))"
proof -
  have h: "select_answer_items bare_page = []" by code_simp
  from scrape_answers_failures_told_by_message [OF h, of "''u''" "''timed out''"] h
  show ?thesis by auto
qed

text \<open>
  Claim C3: on a page that has list items directly under an ordered list directly under the
  main content container, \<^verbatim>\<open>scrape_answers\<close> returns a list: in document order, the
  stripped text of each of those items whose stripped text is not empty. Its length is the
  number of such items, and no answer begins or ends with whitespace.
\<close>

theorem scrape_answers_items:
  assumes "answer_items_spec soup \<noteq> []"
  shows "\<exists>answers. snd (scrape_answers url (Response soup)) = Some answers
     \<and> answers = map (\<lambda>li. strip (get_text li))
                   (filter (\<lambda>li. strip (get_text li) \<noteq> []) (answer_items_spec soup))
     \<and> length answers
         = length (filter (\<lambda>li. strip (get_text li) \<noteq> []) (answer_items_spec soup))
     \<and> (\<forall>a \<in> set answers. a \<noteq> [] \<and> \<not> isspace (hd a) \<and> \<not> isspace (last a))"
proof -
  let ?kept = "filter (\<lambda>li. strip (get_text li) \<noteq> []) (answer_items_spec soup)"
  let ?answers = "map (\<lambda>li. strip (get_text li)) ?kept"
  have val: "snd (scrape_answers url (Response soup)) = Some ?answers"
    using assms by (simp add: scrape_answers_def select_answer_items_spec Let_def)
  have trimmed: "\<forall>a \<in> set ?answers. a \<noteq> [] \<and> \<not> isspace (hd a) \<and> \<not> isspace (last a)"
    using strip_ends by auto
  have len: "length ?answers = length ?kept" by simp
  from val trimmed len show ?thesis by blast
qed

theorem scrape_answers_items_witness:
  "answer_items_spec answer_key_page \<noteq> []
     \<and> snd (scrape_answers ''u'' (Response answer_key_page)) = Some [''A'', ''B'', ''C'']"
proof -
  have h: "answer_items_spec answer_key_page \<noteq> []" by code_simp
  have k: "map (\<lambda>li. strip (get_text li))
             (filter (\<lambda>li. strip (get_text li) \<noteq> []) (answer_items_spec answer_key_page))
           = [''A'', ''B'', ''C'']" by code_simp
  from scrape_answers_items [OF h, of "''u''"] h k show ?thesis by auto
qed

text \<open>
  Claim C4 fails as stated: on a page whose only answer item is blank, no item is kept, yet
  the result is the empty list and not \<^verbatim>\<open>None\<close>.
\<close>

theorem scrape_answers_blank_items_present:
  "filter (\<lambda>li. strip (get_text li) \<noteq> []) (select_answer_items blank_items_page) = []
     \<and> snd (scrape_answers ''u'' (Response blank_items_page)) = Some []"
  by code_simp

text \<open>
  Claim C4, amended: on a fetched page \<^verbatim>\<open>scrape_answers\<close> returns \<^verbatim>\<open>None\<close> exactly when
  no list item sits directly under an ordered list directly under the container; when
  there are such items and all of them strip to the empty string, it returns the empty
  list.
\<close>

theorem scrape_answers_none_iff:
  "(snd (scrape_answers url (Response soup)) = None \<longleftrightarrow> answer_items_spec soup = [])
   \<and> (answer_items_spec soup \<noteq> []
        \<and> (\<forall>li \<in> set (answer_items_spec soup). strip (get_text li) = [])
      \<longrightarrow> snd (scrape_answers url (Response soup)) = Some [])"
  by (auto simp: scrape_answers_def select_answer_items_spec Let_def filter_empty_conv)

theorem scrape_answers_none_iff_witness:
  "answer_items_spec blank_items_page \<noteq> []
     \<and> map (\<lambda>li. strip (get_text li)) (answer_items_spec blank_items_page) = [[]]
     \<and> snd (scrape_answers ''u'' (Response blank_items_page)) = Some []
     \<and> answer_items_spec bare_page = []
     \<and> snd (scrape_answers ''u'' (Response bare_page)) = None"
proof -
  have h1: "answer_items_spec blank_items_page \<noteq> []" by code_simp
  have h2: "\<forall>li \<in> set (answer_items_spec blank_items_page). strip (get_text li) = []"
    by code_simp
  have h3: "answer_items_spec bare_page = []" by code_simp
  have h4: "map (\<lambda>li. strip (get_text li)) (answer_items_spec blank_items_page) = [[]]"
    by code_simp
  from scrape_answers_none_iff [of "''u''" blank_items_page]
       scrape_answers_none_iff [of "''u''" bare_page] h1 h2 h3 h4
  show ?thesis by blast
qed

text \<open>
  Claim C5, on a page where an empty string node stands among the siblings of the chosen
  section: the walk does not go on to the next \<^verbatim>\<open>h2\<close>. It ends at the empty string,
  because \<^verbatim>\<open>while sibling:\<close> tests the truth value of the sibling, and what lies between
  that node and the heading is lost. The claim asks for the fragments and a line feed of
  every sibling before the heading, the second value below.
\<close>

theorem sibling_walk_ends_at_empty_string:
  "extract_solution_content conv empty_string_page 0 = Inr [''one'', newline]
   \<and> concat (map (\<lambda>s. block_fragments conv s @ [newline])
         [Element ''p'' [] [Text ''one''], Comment [], Element ''p'' [] [Text ''two'']])
       = [''one'', newline, newline, ''two'', newline]"
proof -
  let ?mw = "hd (contents empty_string_page)"
  have c: "find_container empty_string_page = Some ?mw" by code_simp
  have h: "find_all_h2 (contents ?mw)
             = [(Element ''h2'' [] [Text ''Contents''],
                 [Element ''h2'' [] [Text ''Solution''], Element ''p'' [] [Text ''one''],
                  Comment [], Element ''p'' [] [Text ''two''], Element ''h2'' [] [Text ''Next'']]),
                (Element ''h2'' [] [Text ''Solution''],
                 [Element ''p'' [] [Text ''one''], Comment [], Element ''p'' [] [Text ''two''],
                  Element ''h2'' [] [Text ''Next'']]),
                (Element ''h2'' [] [Text ''Next''], [])]"
    by code_simp
  have one: "block_fragments conv (Element ''p'' [] [Text ''one'']) = [''one'']"
    by (simp add: block_fragments_def visit_def strip_def isspace_def)
  have two: "block_fragments conv (Element ''p'' [] [Text ''two'']) = [''two'']"
    by (simp add: block_fragments_def visit_def strip_def isspace_def)
  have none: "block_fragments conv (Comment []) = []"
    by (simp add: block_fragments_def)
  have walk: "sibling_loop conv [Element ''p'' [] [Text ''one''], Comment [],
                Element ''p'' [] [Text ''two''], Element ''h2'' [] [Text ''Next'']] []
              = [''one'', newline]"
    unfolding sibling_loop_eq using one by simp
  have A: "extract_solution_content conv empty_string_page 0 = Inr [''one'', newline]"
    using walk by (simp add: extract_solution_content_def c h)
  have B: "concat (map (\<lambda>s. block_fragments conv s @ [newline])
         [Element ''p'' [] [Text ''one''], Comment [], Element ''p'' [] [Text ''two'']])
       = [''one'', newline, newline, ''two'', newline]"
    using one two none by simp
  from A B show ?thesis by (rule conjI)
qed

text \<open>
  Claim C6 fails as stated: for a converter that sets its result on a line of its own, the
  fragment of an image is not the converted text less its trailing line feeds; the leading
  line feed is gone too.
\<close>

theorem image_fragment_keeps_no_leading_newline:
  "visit display_conv (Element ''img'' [(''alt'', ''x'')] []) []
     \<noteq> [spec_strip_trailing_newlines (display_conv ''x'')]"
  by code_simp

text \<open>
  Claim C6, amended: an image among the descendants adds exactly one fragment, placed
  between the fragments of the descendants before it and those of the descendants after
  it: the converted \<^verbatim>\<open>alt\<close> text with the line feeds at both of its ends removed, and
  nothing else removed.
\<close>

theorem image_fragment_stripped_both_ends:
  assumes "tag_name elem = Some ''img''"
  shows "descendants_loop conv (pre @ elem # post) acc
           = descendants_loop conv pre acc
               @ [strip_chars newline (conv (get_attr elem ''alt'' []))]
               @ descendants_loop conv post []
     \<and> (\<exists>l r. conv (get_attr elem ''alt'' [])
                 = l @ strip_chars newline (conv (get_attr elem ''alt'' [])) @ r
              \<and> set l \<subseteq> {CHR 0x0A} \<and> set r \<subseteq> {CHR 0x0A})
     \<and> (strip_chars newline (conv (get_attr elem ''alt'' [])) = []
         \<or> hd (strip_chars newline (conv (get_attr elem ''alt'' []))) \<noteq> CHR 0x0A
           \<and> last (strip_chars newline (conv (get_attr elem ''alt'' []))) \<noteq> CHR 0x0A)"
proof -
  have v: "visit conv elem [] = [strip_chars newline (conv (get_attr elem ''alt'' []))]"
    using assms by (simp add: visit_def)
  have 1: "descendants_loop conv (pre @ elem # post) acc
           = descendants_loop conv pre acc
               @ [strip_chars newline (conv (get_attr elem ''alt'' []))]
               @ descendants_loop conv post []"
    by (simp add: descendants_loop_eq [of conv _ acc] descendants_loop_eq [of conv post "[]"] v)
  have 2: "\<exists>l r. conv (get_attr elem ''alt'' [])
                 = l @ strip_chars newline (conv (get_attr elem ''alt'' [])) @ r
              \<and> set l \<subseteq> {CHR 0x0A} \<and> set r \<subseteq> {CHR 0x0A}"
    using strip_chars_parts [of "conv (get_attr elem ''alt'' [])" newline] by simp
  have 3: "strip_chars newline (conv (get_attr elem ''alt'' [])) = []
         \<or> hd (strip_chars newline (conv (get_attr elem ''alt'' []))) \<noteq> CHR 0x0A
           \<and> last (strip_chars newline (conv (get_attr elem ''alt'' []))) \<noteq> CHR 0x0A"
    using strip_chars_ends [of newline "conv (get_attr elem ''alt'' [])"] by auto
  from 1 2 3 show ?thesis by blast
qed

theorem image_fragment_stripped_both_ends_witness:
  "tag_name (Element ''img'' [(''alt'', ''x'')] []) = Some ''img''
   \<and> descendants_loop display_conv
        ([Text ''So '', Element ''b'' [] []] @ Element ''img'' [(''alt'', ''x'')] [] # [Text '' wins.'']) []
      = [''So'', ''x'', ''wins.'']"
proof -
  have t: "tag_name (Element ''img'' [(''alt'', ''x'')] []) = Some ''img''" by simp
  have e: "descendants_loop display_conv [Text ''So '', Element ''b'' [] []] []
               @ [strip_chars newline (display_conv (get_attr (Element ''img'' [(''alt'', ''x'')] []) ''alt'' []))]
               @ descendants_loop display_conv [Text '' wins.''] [] = [''So'', ''x'', ''wins.'']"
    by code_simp
  from image_fragment_stripped_both_ends [OF t, of display_conv "[Text ''So '', Element ''b'' [] []]" "[Text '' wins.'']" "[]"]
  have "descendants_loop display_conv
        ([Text ''So '', Element ''b'' [] []] @ Element ''img'' [(''alt'', ''x'')] [] # [Text '' wins.'']) []
      = descendants_loop display_conv [Text ''So '', Element ''b'' [] []] []
               @ [strip_chars newline (display_conv (get_attr (Element ''img'' [(''alt'', ''x'')] []) ''alt'' []))]
               @ descendants_loop display_conv [Text '' wins.''] []"
    by blast
  with e t show ?thesis by metis
qed

text \<open>
  Claim C7: \<^verbatim>\<open>fetch_solution_sections\<close> returns, in document order, the stripped text of
  the first \<^verbatim>\<open>toctext\<close> node inside each \<^verbatim>\<open>toclevel-1\<close> entry that has one, leaving
  out the entries that have none; without any such entry it returns the empty list. Each
  title is trimmed: it is the text of that node with nothing but whitespace taken from its
  two ends, and it neither begins nor ends with whitespace.
\<close>

theorem fetch_solution_sections_titles:
  "fetch_solution_sections soup
     = map (\<lambda>content. strip (get_text (the (find_class ''toctext'' content))))
         (filter (\<lambda>content. find_class ''toctext'' content \<noteq> None)
            (find_all_class ''toclevel-1'' soup))
   \<and> (find_all_class ''toclevel-1'' soup = [] \<longrightarrow> fetch_solution_sections soup = [])
   \<and> list_all2
        (\<lambda>title content. \<exists>text_el l r.
            find_class ''toctext'' content = Some text_el
          \<and> get_text text_el = l @ title @ r
          \<and> (\<forall>c \<in> set l. isspace c) \<and> (\<forall>c \<in> set r. isspace c)
          \<and> (title = [] \<or> \<not> isspace (hd title) \<and> \<not> isspace (last title)))
        (fetch_solution_sections soup)
        (filter (\<lambda>content. find_class ''toctext'' content \<noteq> None)
           (find_all_class ''toclevel-1'' soup))"
proof -
  let ?entries = "filter (\<lambda>content. find_class ''toctext'' content \<noteq> None)
                    (find_all_class ''toclevel-1'' soup)"
  have eq: "fetch_solution_sections soup
     = map (\<lambda>content. strip (get_text (the (find_class ''toctext'' content)))) ?entries"
    by (simp add: fetch_solution_sections_def toc_loop_eq List.map_filter_def comp_def)
  have none: "find_all_class ''toclevel-1'' soup = [] \<longrightarrow> fetch_solution_sections soup = []"
    using eq by simp
  have each: "\<exists>text_el l r.
            find_class ''toctext'' content = Some text_el
          \<and> get_text text_el = l @ strip (get_text (the (find_class ''toctext'' content))) @ r
          \<and> (\<forall>c \<in> set l. isspace c) \<and> (\<forall>c \<in> set r. isspace c)
          \<and> (strip (get_text (the (find_class ''toctext'' content))) = []
              \<or> \<not> isspace (hd (strip (get_text (the (find_class ''toctext'' content)))))
                \<and> \<not> isspace (last (strip (get_text (the (find_class ''toctext'' content))))))"
    if "content \<in> set ?entries" for content
  proof -
    from that obtain text_el where t: "find_class ''toctext'' content = Some text_el" by auto
    from strip_parts [of "get_text text_el"] obtain l r where
      p: "get_text text_el = l @ strip (get_text text_el) @ r"
         "\<forall>c \<in> set l. isspace c" "\<forall>c \<in> set r. isspace c" by blast
    have e: "strip (get_text text_el) = []
              \<or> \<not> isspace (hd (strip (get_text text_el))) \<and> \<not> isspace (last (strip (get_text text_el)))"
      using strip_ends [of "get_text text_el"] by blast
    from t p e show ?thesis by auto
  qed
  have pinned: "list_all2
        (\<lambda>title content. \<exists>text_el l r.
            find_class ''toctext'' content = Some text_el
          \<and> get_text text_el = l @ title @ r
          \<and> (\<forall>c \<in> set l. isspace c) \<and> (\<forall>c \<in> set r. isspace c)
          \<and> (title = [] \<or> \<not> isspace (hd title) \<and> \<not> isspace (last title)))
        (fetch_solution_sections soup) ?entries"
    unfolding eq list_all2_map1 using each by (intro list_all2_same [THEN iffD2]) blast
  from eq none pinned show ?thesis by blast
qed

theorem fetch_solution_sections_titles_witness:
  "fetch_solution_sections padded_toc_page = [''Solution 1 (fast)'', ''Solution 2'']
   \<and> find_all_class ''toclevel-1'' bare_page = [] \<and> fetch_solution_sections bare_page = []"
proof -
  have a: "map (\<lambda>content. strip (get_text (the (find_class ''toctext'' content))))
         (filter (\<lambda>content. find_class ''toctext'' content \<noteq> None)
            (find_all_class ''toclevel-1'' padded_toc_page)) = [''Solution 1 (fast)'', ''Solution 2'']"
    by code_simp
  have b: "find_all_class ''toclevel-1'' bare_page = []" by code_simp
  from fetch_solution_sections_titles [of padded_toc_page] fetch_solution_sections_titles [of bare_page] a b
  show ?thesis by metis
qed

text \<open>
  Claim C8 fails as stated: a page with three \<^verbatim>\<open>h2\<close> headings and no table of contents
  has no section title, not two.
\<close>

theorem sections_not_heading_count:
  "1 \<le> count_h2 headings_only_page
   \<and> length (fetch_solution_sections headings_only_page) \<noteq> count_h2 headings_only_page - 1"
  by code_simp

text \<open>
  Claim C8, amended: the number of titles is the number of \<^verbatim>\<open>toclevel-1\<close> entries that
  hold a \<^verbatim>\<open>toctext\<close> node, whatever the headings. The one heading left out is left out
  by \<^verbatim>\<open>extract_solution_content\<close>: when the container holds at least one \<^verbatim>\<open>h2\<close>,
  index \<open>i\<close> stands for heading \<open>i + 1\<close> of the container as long as
  \<open>0 \<le> i\<close> and \<open>i\<close> is below the number of headings less one, and every other index
  gives the empty list.
\<close>

theorem sections_count_toc_entries:
  "length (fetch_solution_sections soup)
     = length (filter (\<lambda>content. find_class ''toctext'' content \<noteq> None)
                 (find_all_class ''toclevel-1'' soup))
   \<and> (find_container soup = Some mw_content \<and> find_all_h2 (contents mw_content) \<noteq> [] \<longrightarrow>
        extract_solution_content conv soup i
          = (if 0 \<le> i \<and> i < int (length (find_all_h2 (contents mw_content))) - 1
             then Inr (sibling_loop conv (snd (find_all_h2 (contents mw_content) ! (nat i + 1))) [])
             else Inr []))"
proof -
  have 1: "length (fetch_solution_sections soup)
     = length (filter (\<lambda>content. find_class ''toctext'' content \<noteq> None)
                 (find_all_class ''toclevel-1'' soup))"
    by (simp add: fetch_solution_sections_def toc_loop_eq List.map_filter_def)
  have 2: "extract_solution_content conv soup i
          = (if 0 \<le> i \<and> i < int (length (find_all_h2 (contents mw_content))) - 1
             then Inr (sibling_loop conv (snd (find_all_h2 (contents mw_content) ! (nat i + 1))) [])
             else Inr [])"
    if "find_container soup = Some mw_content" "find_all_h2 (contents mw_content) \<noteq> []"
  proof -
    from that(2) obtain c hs where e: "find_all_h2 (contents mw_content) = c # hs"
      by (cases "find_all_h2 (contents mw_content)") auto
    show ?thesis
      using that(1) e by (auto simp: extract_solution_content_def)
  qed
  from 1 2 show ?thesis by blast
qed

theorem sections_count_toc_entries_witness:
  "length (fetch_solution_sections headings_only_page) = 0
   \<and> find_container headings_only_page = Some (hd (contents headings_only_page))
   \<and> find_all_h2 (contents (hd (contents headings_only_page))) \<noteq> []
   \<and> extract_solution_content display_conv headings_only_page 0 = Inr [''The answer is 5.'', newline]
   \<and> extract_solution_content display_conv headings_only_page 2 = Inr []"
proof -
  let ?mw = "hd (contents headings_only_page)"
  have c: "find_container headings_only_page = Some ?mw" by code_simp
  have h: "find_all_h2 (contents ?mw) \<noteq> []" by code_simp
  have n: "length (filter (\<lambda>content. find_class ''toctext'' content \<noteq> None)
                 (find_all_class ''toclevel-1'' headings_only_page)) = 0" by code_simp
  have v0: "(if (0::int) \<le> 0 \<and> 0 < int (length (find_all_h2 (contents ?mw))) - 1
             then Inr (sibling_loop display_conv (snd (find_all_h2 (contents ?mw) ! (nat 0 + 1))) [])
             else Inr []) = (Inr [''The answer is 5.'', newline] :: error + string list)" by code_simp
  have v2: "(if (0::int) \<le> 2 \<and> 2 < int (length (find_all_h2 (contents ?mw))) - 1
             then Inr (sibling_loop display_conv (snd (find_all_h2 (contents ?mw) ! (nat 2 + 1))) [])
             else Inr []) = (Inr [] :: error + string list)" by code_simp
  from sections_count_toc_entries [of headings_only_page ?mw display_conv 0]
       sections_count_toc_entries [of headings_only_page ?mw display_conv 2] c h n v0 v2
  show ?thesis by metis
qed



text \<open>
  Claim C9: each extractor, called twice in a row on a store, returns the same value both
  times, and that value is the one the function of the page gives; after the two calls the
  page is the page it was and every list object that was in the store is unchanged. The
  only objects a call changes are lists it has made itself.
\<close>

theorem extractors_idempotent:
  "fst (scrape_answers_st url (snd (scrape_answers_st url s))) = fst (scrape_answers_st url s)
   \<and> fst (scrape_answers_st url s) = scrape_answers url (Response (page s))
   \<and> preserves s (snd (scrape_answers_st url (snd (scrape_answers_st url s))))
   \<and> fst (fetch_solution_sections_st (snd (fetch_solution_sections_st s)))
       = fst (fetch_solution_sections_st s)
   \<and> fst (fetch_solution_sections_st s) = fetch_solution_sections (page s)
   \<and> preserves s (snd (fetch_solution_sections_st (snd (fetch_solution_sections_st s))))
   \<and> fst (extract_solution_content_st conv i (snd (extract_solution_content_st conv i s)))
       = fst (extract_solution_content_st conv i s)
   \<and> fst (extract_solution_content_st conv i s) = extract_solution_content conv (page s) i
   \<and> preserves s (snd (extract_solution_content_st conv i
                          (snd (extract_solution_content_st conv i s))))"
proof -
  have a: "page (snd (scrape_answers_st url s)) = page s"
    using scrape_answers_st_preserves [of s url] by (simp add: preserves_def)
  have b: "page (snd (fetch_solution_sections_st s)) = page s"
    using fetch_solution_sections_st_preserves [of s] by (simp add: preserves_def)
  have c: "page (snd (extract_solution_content_st conv i s)) = page s"
    using extract_solution_content_st_preserves [of s conv i] by (simp add: preserves_def)
  have a2: "preserves s (snd (scrape_answers_st url (snd (scrape_answers_st url s))))"
    by (rule preserves_trans [OF scrape_answers_st_preserves scrape_answers_st_preserves])
  have b2: "preserves s (snd (fetch_solution_sections_st (snd (fetch_solution_sections_st s))))"
    by (rule preserves_trans
          [OF fetch_solution_sections_st_preserves fetch_solution_sections_st_preserves])
  have c2: "preserves s (snd (extract_solution_content_st conv i
                          (snd (extract_solution_content_st conv i s))))"
    by (rule preserves_trans
          [OF extract_solution_content_st_preserves extract_solution_content_st_preserves])
  show ?thesis
    by (simp add: scrape_answers_st_pure fetch_solution_sections_st_pure
        extract_solution_content_st_pure a b c a2 b2 c2)
qed

end
